theory Spec2Isabelle
  imports Main "HOL-Library.Finite_Map" "HOL-Library.Char_ord" "HOL-Library.List_Lexorder"
    "HOL-Library.Sublist"
begin

section \<open>The migrator package: data\<close>

text \<open>
  Go strings are byte sequences compared byte by byte, a proper prefix being smaller.
  \<^typ>\<open>string\<close> with the order of \<open>Char_ord\<close> and \<open>List_Lexorder\<close> is the same order.

  A Go \<open>error\<close> is \<open>sql.ErrNoRows\<close> (which \<open>currentVersion\<close> compares against) or any other
  error value, kept by its message.
\<close>

datatype error = ErrNoRows | Failure string

text \<open>
  A row of the table \<open>versions\<close> (version.go, struct \<open>version\<close> and \<open>queryVersionsNew\<close>).
  The columns \<open>id\<close> and \<open>created_at\<close> are assigned by the server and are read only by
  \<open>Status\<close>; the rows here carry the two columns that \<open>Migrate\<close> writes and reads.
\<close>

record version =
  version :: string
  vname :: string

text \<open>
  The database: the table \<open>versions\<close> (\<open>None\<close> while it has not been created), in
  insertion order, and everything else, on which the migrations act.
\<close>

record 'u database =
  versions :: "version list option"
  schema :: 'u

text \<open>
  \<open>type migrationFunc func(tx *sql.Tx) error\<close>: a function on the transaction's view of the
  database that returns an error or nil. A Go func value may be nil: \<open>None\<close>.
\<close>

type_synonym 'u migrationFunc = "('u database \<Rightarrow> error option \<times> 'u database) option"

record 'u migration =
  name :: string
  up :: "'u migrationFunc"
  down :: "'u migrationFunc"

text \<open>\<open>var migrations = make(map[string]*migration)\<close>: a finite map keyed by version.\<close>

type_synonym 'u migrations = "(string, 'u migration) fmap"

text \<open>
  The calls made on the database handle, the transaction and the migrations, in program
  order. \<open>Begin\<close>, \<open>Commit\<close> and \<open>Rollback\<close> carry the version of the loop iteration that
  makes them. The driver may fail any call to the database: \<open>faults\<close> gives the message of
  the error a call returns, or \<open>None\<close> when the driver performs it.
\<close>

datatype call =
  ExecNew
  | QueryLast
  | Begin string
  | CallUp string
  | CallDown string
  | ExecInsert string string
  | ExecDelete string
  | Commit string
  | Rollback string

type_synonym faults = "call \<Rightarrow> string option"

text \<open>
  What \<open>Migrate\<close> prints on standard error: the arguments of the two \<open>Fprintf\<close> calls.
\<close>

datatype stderr_line =
  ErrorQuerying error
  | ErrorMigrating string error

text \<open>
  The state a run acts on: the committed database, the view of the transaction begun last,
  the calls made so far and the lines printed on standard error.
\<close>

record 'u world =
  database :: "'u database"
  tx :: "'u database"
  calls :: "call list"
  stderr :: "stderr_line list"

text \<open>A Go function returns, or panics with a message.\<close>

datatype outcome = Returned "error option" | Panicked string

section \<open>version.go: the queries\<close>

definition no_table :: error where
  "no_table = Failure ''relation versions does not exist''"

definition queryVersionsNew :: "'u database \<Rightarrow> 'u database" where
  "queryVersionsNew d = (case versions d of None \<Rightarrow> d\<lparr>versions := Some []\<rparr> | Some rs \<Rightarrow> d)"

text \<open>\<open>ORDER BY version DESC LIMIT 1\<close>, the server ordering text as Go orders strings.\<close>

definition queryVersionsLast :: "'u database \<Rightarrow> error + string list" where
  "queryVersionsLast d =
     (case versions d of
        None \<Rightarrow> Inl no_table
      | Some rs \<Rightarrow> Inr (take 1 (rev (sort (map version rs)))))"

definition queryVersionsInsert :: "string \<Rightarrow> string \<Rightarrow> 'u database \<Rightarrow> error + 'u database" where
  "queryVersionsInsert v n d =
     (case versions d of
        None \<Rightarrow> Inl no_table
      | Some rs \<Rightarrow> Inr (d\<lparr>versions := Some (rs @ [\<lparr>version = v, vname = n\<rparr>])\<rparr>))"

definition queryVersionsDelete :: "string \<Rightarrow> 'u database \<Rightarrow> error + 'u database" where
  "queryVersionsDelete v d =
     (case versions d of
        None \<Rightarrow> Inl no_table
      | Some rs \<Rightarrow> Inr (d\<lparr>versions := Some (filter (\<lambda>r. version r \<noteq> v) rs)\<rparr>))"

section \<open>database/sql: the calls the package makes\<close>

definition logged :: "call \<Rightarrow> 'u world \<Rightarrow> 'u world" where
  "logged c w = w\<lparr>calls := calls w @ [c]\<rparr>"

text \<open>\<open>db.Exec(queryVersionsNew)\<close>\<close>

definition db_Exec_New :: "faults \<Rightarrow> 'u world \<Rightarrow> error option \<times> 'u world" where
  "db_Exec_New fs w =
     (let w' = logged ExecNew w in
      case fs ExecNew of
        Some msg \<Rightarrow> (Some (Failure msg), w')
      | None \<Rightarrow> (None, w'\<lparr>database := queryVersionsNew (database w')\<rparr>))"

text \<open>
  \<open>db.QueryRow(queryVersionsLast).Scan(&v)\<close>: the scanned string (left \<open>""\<close> when nothing is
  scanned) and the error, \<open>sql.ErrNoRows\<close> when the query selects no row.
\<close>

definition db_QueryRow_Last :: "faults \<Rightarrow> 'u world \<Rightarrow> (string \<times> error option) \<times> 'u world" where
  "db_QueryRow_Last fs w =
     (let w' = logged QueryLast w in
      case fs QueryLast of
        Some msg \<Rightarrow> (('''', Some (Failure msg)), w')
      | None \<Rightarrow>
          (case queryVersionsLast (database w') of
             Inl err \<Rightarrow> (('''', Some err), w')
           | Inr [] \<Rightarrow> (('''', Some ErrNoRows), w')
           | Inr (v # _) \<Rightarrow> ((v, None), w')))"

text \<open>\<open>db.Begin()\<close>: the transaction starts from the committed database.\<close>

definition db_Begin :: "faults \<Rightarrow> string \<Rightarrow> 'u world \<Rightarrow> error option \<times> 'u world" where
  "db_Begin fs v w =
     (let w' = logged (Begin v) w in
      case fs (Begin v) of
        Some msg \<Rightarrow> (Some (Failure msg), w')
      | None \<Rightarrow> (None, w'\<lparr>tx := database w'\<rparr>))"

text \<open>\<open>tx.Exec(queryVersionsInsert, version, name)\<close> and \<open>tx.Exec(queryVersionsDelete, version)\<close>\<close>

definition tx_Exec_Insert :: "faults \<Rightarrow> string \<Rightarrow> string \<Rightarrow> 'u world \<Rightarrow> error option \<times> 'u world" where
  "tx_Exec_Insert fs v n w =
     (let w' = logged (ExecInsert v n) w in
      case fs (ExecInsert v n) of
        Some msg \<Rightarrow> (Some (Failure msg), w')
      | None \<Rightarrow>
          (case queryVersionsInsert v n (tx w') of
             Inl err \<Rightarrow> (Some err, w')
           | Inr d \<Rightarrow> (None, w'\<lparr>tx := d\<rparr>)))"

definition tx_Exec_Delete :: "faults \<Rightarrow> string \<Rightarrow> 'u world \<Rightarrow> error option \<times> 'u world" where
  "tx_Exec_Delete fs v w =
     (let w' = logged (ExecDelete v) w in
      case fs (ExecDelete v) of
        Some msg \<Rightarrow> (Some (Failure msg), w')
      | None \<Rightarrow>
          (case queryVersionsDelete v (tx w') of
             Inl err \<Rightarrow> (Some err, w')
           | Inr d \<Rightarrow> (None, w'\<lparr>tx := d\<rparr>)))"

text \<open>
  \<open>tx.Commit()\<close> makes the transaction's view the committed database; a commit that fails
  and \<open>tx.Rollback()\<close> leave the committed database as it was.
\<close>

definition tx_Commit :: "faults \<Rightarrow> string \<Rightarrow> 'u world \<Rightarrow> error option \<times> 'u world" where
  "tx_Commit fs v w =
     (let w' = logged (Commit v) w in
      case fs (Commit v) of
        Some msg \<Rightarrow> (Some (Failure msg), w')
      | None \<Rightarrow> (None, w'\<lparr>database := tx w'\<rparr>))"

definition tx_Rollback :: "faults \<Rightarrow> string \<Rightarrow> 'u world \<Rightarrow> error option \<times> 'u world" where
  "tx_Rollback fs v w =
     (let w' = logged (Rollback v) w in
      case fs (Rollback v) of
        Some msg \<Rightarrow> (Some (Failure msg), w')
      | None \<Rightarrow> (None, w'))"

text \<open>Calling a migration function with the transaction.\<close>

definition call_func ::
  "call \<Rightarrow> ('u database \<Rightarrow> error option \<times> 'u database) \<Rightarrow> 'u world \<Rightarrow> error option \<times> 'u world"
where
  "call_func c f w =
     (let w' = logged c w in
      case f (tx w') of (err, d) \<Rightarrow> (err, w'\<lparr>tx := d\<rparr>))"

section \<open>version.go: currentVersion\<close>

definition currentVersion :: "faults \<Rightarrow> 'u world \<Rightarrow> (string \<times> error option) \<times> 'u world" where
  "currentVersion fs w =
     (case db_QueryRow_Last fs w of
        ((v, err), w') \<Rightarrow>
          if err = Some ErrNoRows then (('''', None), w') else ((v, err), w'))"

section \<open>migrator.go\<close>

definition nil_dereference :: string where
  "nil_dereference = ''runtime error: invalid memory address or nil pointer dereference''"

definition Register ::
  "string \<Rightarrow> string \<Rightarrow> 'u migrationFunc \<Rightarrow> 'u migrationFunc \<Rightarrow> 'u migrations
     \<Rightarrow> string + 'u migrations"
where
  "Register vsn n u d ms =
     (if Option.is_none u \<or> Option.is_none d then
        Inl ''migrator: Register up and down are both required''
      else if fmlookup ms vsn \<noteq> None then
        Inl (''migrator: Register called twice for migrator '' @ vsn)
      else Inr (fmupd vsn \<lparr>name = n, up = u, down = d\<rparr> ms))"

definition shouldMigrate :: "string \<Rightarrow> string \<Rightarrow> string \<Rightarrow> bool \<Rightarrow> bool" where
  "shouldMigrate vsn current target u =
     (if \<not> u then vsn \<le> current \<and> vsn > target
      else vsn > current \<and> vsn \<le> target)"

text \<open>
  \<open>sorted()\<close>: the keys of the map, collected in the map's iteration order and then sorted
  ascending; the keys of a map are distinct, so this is the sorted list of the key set.
\<close>

definition sorted_migrations :: "'u migrations \<Rightarrow> string list" where
  "sorted_migrations ms = sorted_list_of_fset (fmdom ms)"

definition migrate :: "'u migrations \<Rightarrow> faults \<Rightarrow> string \<Rightarrow> bool \<Rightarrow> 'u world \<Rightarrow> outcome \<times> 'u world" where
  "migrate ms fs vsn u w =
     (case fmlookup ms vsn of
        None \<Rightarrow> (Panicked nil_dereference, w)
      | Some m \<Rightarrow>
          if \<not> u then
            (case down m of
               None \<Rightarrow> (Panicked nil_dereference, w)
             | Some f \<Rightarrow>
                 (case call_func (CallDown vsn) f w of
                    (Some err, w1) \<Rightarrow> (Returned (Some err), w1)
                  | (None, w1) \<Rightarrow>
                      (case tx_Exec_Delete fs vsn w1 of (err, w2) \<Rightarrow> (Returned err, w2))))
          else
            (case up m of
               None \<Rightarrow> (Panicked nil_dereference, w)
             | Some f \<Rightarrow>
                 (case call_func (CallUp vsn) f w of
                    (Some err, w1) \<Rightarrow> (Returned (Some err), w1)
                  | (None, w1) \<Rightarrow>
                      (case tx_Exec_Insert fs vsn (name m) w1 of
                         (err, w2) \<Rightarrow> (Returned err, w2)))))"

text \<open>\<open>func empty(tx *sql.Tx) error { return nil }\<close>\<close>

definition empty_func :: "'u database \<Rightarrow> error option \<times> 'u database" where
  "empty_func t = (None, t)"

text \<open>\<open>func init()\<close>: the registration the package makes on the empty map.\<close>

definition init :: "string + 'u migrations" where
  "init = Register ''00010101T000000Z'' ''nil'' (Some empty_func) (Some empty_func) fmempty"

text \<open>
  The body of the loop of \<open>Migrate\<close> for a version that is to be migrated (lines 71 to 88):
  \<open>Returned None\<close> stands for reaching the end of the body, the loop going on.
\<close>

definition Migrate_body :: "'u migrations \<Rightarrow> faults \<Rightarrow> string \<Rightarrow> bool \<Rightarrow> 'u world \<Rightarrow> outcome \<times> 'u world" where
  "Migrate_body ms fs v u w =
     (case db_Begin fs v w of
        (Some err, w1) \<Rightarrow> (Returned (Some err), w1)
      | (None, w1) \<Rightarrow>
          (case migrate ms fs v u w1 of
             (Panicked p, w2) \<Rightarrow> (Panicked p, w2)
           | (Returned (Some err), w2) \<Rightarrow>
               (let w3 = w2\<lparr>stderr := stderr w2 @ [ErrorMigrating v err]\<rparr> in
                case tx_Rollback fs v w3 of
                  (Some rerr, w4) \<Rightarrow> (Returned (Some rerr), w4)
                | (None, w4) \<Rightarrow> (Returned (Some err), w4))
           | (Returned None, w2) \<Rightarrow>
               (case tx_Commit fs v w2 of
                  (Some cerr, w3) \<Rightarrow> (Returned (Some cerr), w3)
                | (None, w3) \<Rightarrow> (Returned None, w3))))"

text \<open>The loop \<open>for _, v := range vs\<close> of \<open>Migrate\<close> (lines 66 to 91).\<close>

fun Migrate_loop ::
  "'u migrations \<Rightarrow> faults \<Rightarrow> string \<Rightarrow> string \<Rightarrow> bool \<Rightarrow> string list \<Rightarrow> 'u world
     \<Rightarrow> outcome \<times> 'u world"
where
  "Migrate_loop ms fs current target u [] w = (Returned None, w)"
| "Migrate_loop ms fs current target u (v # vs) w =
     (if \<not> shouldMigrate v current target u then Migrate_loop ms fs current target u vs w
      else
        (case Migrate_body ms fs v u w of
           (Returned None, w') \<Rightarrow> Migrate_loop ms fs current target u vs w'
         | (out, w') \<Rightarrow> (out, w')))"

text \<open>
  Lines 44 to 47: an empty target stands for the last of the sorted versions; indexing
  the empty slice at \<open>len(vs)-1\<close> panics.
\<close>

definition resolve_target :: "string list \<Rightarrow> string \<Rightarrow> string + string" where
  "resolve_target vs target =
     (if target = '''' then
        (if vs = [] then Inl ''runtime error: index out of range [-1]'' else Inr (last vs))
      else Inr target)"

text \<open>
  Lines 60 to 64: the direction, and the versions in the order the loop visits them
  (\<open>sort.Sort(sort.Reverse(sort.StringSlice(vs)))\<close> sorts descending).
\<close>

definition direction :: "string \<Rightarrow> string \<Rightarrow> bool" where
  "direction current target = (\<not> current > target)"

definition ordered :: "bool \<Rightarrow> string list \<Rightarrow> string list" where
  "ordered u vs = (if u then vs else rev (sort vs))"

definition Migrate :: "'u migrations \<Rightarrow> faults \<Rightarrow> string \<Rightarrow> 'u world \<Rightarrow> outcome \<times> 'u world" where
  "Migrate ms fs target w =
     (let vs = sorted_migrations ms in
      case resolve_target vs target of
        Inl p \<Rightarrow> (Panicked p, w)
      | Inr target \<Rightarrow>
          (case db_Exec_New fs w of
             (Some err, w1) \<Rightarrow> (Returned (Some err), w1)
           | (None, w1) \<Rightarrow>
               (case currentVersion fs w1 of
                  ((current, Some err), w2) \<Rightarrow>
                    (Returned (Some err), w2\<lparr>stderr := stderr w2 @ [ErrorQuerying err]\<rparr>)
                | ((current, None), w2) \<Rightarrow>
                    (let u = direction current target in
                     Migrate_loop ms fs current target u (ordered u vs) w2))))"

text \<open>
  The plan of a run: the direction, and the versions for which the loop does not
  \<open>continue\<close>, in the order the loop visits them.
\<close>

definition plan :: "'u migrations \<Rightarrow> string \<Rightarrow> string \<Rightarrow> bool \<times> string list" where
  "plan ms current target =
     (let u = direction current target in
      (u, filter (\<lambda>v. shouldMigrate v current target u) (ordered u (sorted_migrations ms))))"

section \<open>Observations, conditions and scenarios\<close>

text \<open>The versions in the table, in insertion order; none while the table is missing.\<close>

definition applied :: "'u database \<Rightarrow> string list" where
  "applied d = (case versions d of None \<Rightarrow> [] | Some rs \<Rightarrow> map version rs)"

definition greatest :: "string list \<Rightarrow> string" where
  "greatest xs = (if xs = [] then '''' else Max (set xs))"

text \<open>The versions for which a run began, and for which it committed, a transaction.\<close>

definition begun :: "'u world \<Rightarrow> string list" where
  "begun w = [v. Begin v \<leftarrow> calls w]"

definition committed :: "'u world \<Rightarrow> string list" where
  "committed w = [v. Commit v \<leftarrow> calls w]"

text \<open>
  The versions whose up function, and whose down function, a run called.
\<close>

definition ups :: "'u world \<Rightarrow> string list" where
  "ups w = [v. CallUp v \<leftarrow> calls w]"

definition downs :: "'u world \<Rightarrow> string list" where
  "downs w = [v. CallDown v \<leftarrow> calls w]"

text \<open>
  Every action of a run succeeds: along the run over the versions \<open>vs\<close> in the direction
  \<open>u\<close>, from the committed database \<open>d\<close>, each migration function the run calls is there,
  returns nil on the database it is called on, and leaves the table \<open>versions\<close> to the
  bookkeeping write that follows it. Nothing is asked of the functions the run does not
  call, nor of these functions on other databases.
\<close>

fun actions_succeed :: "'u migrations \<Rightarrow> bool \<Rightarrow> string list \<Rightarrow> 'u database \<Rightarrow> bool" where
  "actions_succeed ms u [] d = True"
| "actions_succeed ms u (v # vs) d =
     (case fmlookup ms v of
        None \<Rightarrow> False
      | Some m \<Rightarrow>
          (case (if u then up m else down m) of
             None \<Rightarrow> False
           | Some f \<Rightarrow>
               (case f d of
                  (Some err, d') \<Rightarrow> False
                | (None, d') \<Rightarrow>
                    versions d' = versions d
                    \<and> (case (if u then queryVersionsInsert v (name m) d'
                              else queryVersionsDelete v d') of
                         Inl err \<Rightarrow> False
                       | Inr d'' \<Rightarrow> actions_succeed ms u vs d''))))"

text \<open>A driver that fails no call.\<close>

definition no_faults :: faults where
  "no_faults = (\<lambda>c. None)"

text \<open>The version that \<open>init\<close> registers.\<close>

definition floor_version :: string where
  "floor_version = ''00010101T000000Z''"

text \<open>The map after \<open>init\<close>.\<close>

definition registry0 :: "'u migrations" where
  "registry0 =
     fmupd ''00010101T000000Z'' \<lparr>name = ''nil'', up = Some empty_func, down = Some empty_func\<rparr>
       fmempty"

text \<open>
  Migrations of a database whose schema is the list of its tables: one that creates a
  table, one that drops it, and one that fails.
\<close>

definition create_table :: "string \<Rightarrow> string list database \<Rightarrow> error option \<times> string list database" where
  "create_table t d = (None, d\<lparr>schema := t # schema d\<rparr>)"

definition drop_table :: "string \<Rightarrow> string list database \<Rightarrow> error option \<times> string list database" where
  "drop_table t d = (None, d\<lparr>schema := removeAll t (schema d)\<rparr>)"


definition table_migration :: "string \<Rightarrow> string list migration" where
  "table_migration t = \<lparr>name = t, up = Some (create_table t), down = Some (drop_table t)\<rparr>"

text \<open>The three versions of the scenario, registered after \<open>init\<close>.\<close>

definition registry_ABC :: "string list migrations" where
  "registry_ABC =
     fmupd ''20200301T000000Z'' (table_migration ''c'')
       (fmupd ''20200201T000000Z'' (table_migration ''b'')
         (fmupd ''20200101T000000Z'' (table_migration ''a'') registry0))"


text \<open>Versions numbered from \<open>0001\<close>, registered after \<open>init\<close>.\<close>

definition registry_numbered :: "string list migrations" where
  "registry_numbered =
     fmupd ''0002'' (table_migration ''b'')
       (fmupd ''0001'' (table_migration ''a'') registry0)"

text \<open>A fresh database, on which nothing has been called yet; one with a given table.\<close>

definition fresh :: "string list world" where
  "fresh =
     \<lparr>database = \<lparr>versions = None, schema = []\<rparr>, tx = \<lparr>versions = None, schema = []\<rparr>,
      calls = [], stderr = []\<rparr>"

definition with_rows :: "version list \<Rightarrow> string list world" where
  "with_rows rs =
     \<lparr>database = \<lparr>versions = Some rs, schema = []\<rparr>, tx = \<lparr>versions = Some rs, schema = []\<rparr>,
      calls = [], stderr = []\<rparr>"

text \<open>A driver that fails the one call given.\<close>

definition failing_on :: "call \<Rightarrow> string \<Rightarrow> faults" where
  "failing_on c msg = (\<lambda>c'. if c' = c then Some msg else None)"

text \<open>A database in which the floor version and the first two versions are applied.\<close>

definition world_AB :: "string list world" where
  "world_AB =
     with_rows
       [\<lparr>version = ''00010101T000000Z'', vname = ''nil''\<rparr>,
        \<lparr>version = ''20200101T000000Z'', vname = ''a''\<rparr>,
        \<lparr>version = ''20200201T000000Z'', vname = ''b''\<rparr>]"


text \<open>
  The world after the loop of \<open>registry_broken\<close> has run, upwards from an empty table, over
  the floor version and the first version.
\<close>

definition after_A :: "string list world" where
  "after_A =
     \<lparr>database =
        \<lparr>versions =
           Some [\<lparr>version = ''00010101T000000Z'', vname = ''nil''\<rparr>,
                 \<lparr>version = ''20200101T000000Z'', vname = ''a''\<rparr>],
         schema = [''a'']\<rparr>,
      tx =
        \<lparr>versions =
           Some [\<lparr>version = ''00010101T000000Z'', vname = ''nil''\<rparr>,
                 \<lparr>version = ''20200101T000000Z'', vname = ''a''\<rparr>],
         schema = [''a'']\<rparr>,
      calls =
        [Begin ''00010101T000000Z'', CallUp ''00010101T000000Z'',
         ExecInsert ''00010101T000000Z'' ''nil'', Commit ''00010101T000000Z'',
         Begin ''20200101T000000Z'', CallUp ''20200101T000000Z'',
         ExecInsert ''20200101T000000Z'' ''a'', Commit ''20200101T000000Z''],
      stderr = []\<rparr>"

text \<open>
  A migration that creates a table only where there is none of its name, and the three
  versions with such migrations: run twice, the up function fails.
\<close>

definition create_new_table :: "string \<Rightarrow> string list database \<Rightarrow> error option \<times> string list database" where
  "create_new_table t d =
     (if t \<in> set (schema d) then (Some (Failure ''relation already exists''), d)
      else (None, d\<lparr>schema := t # schema d\<rparr>))"

definition strict_migration :: "string \<Rightarrow> string list migration" where
  "strict_migration t = \<lparr>name = t, up = Some (create_new_table t), down = Some (drop_table t)\<rparr>"

definition registry_strict :: "string list migrations" where
  "registry_strict =
     fmupd ''20200301T000000Z'' (strict_migration ''c'')
       (fmupd ''20200201T000000Z'' (strict_migration ''b'')
         (fmupd ''20200101T000000Z'' (strict_migration ''a'') registry0))"

text \<open>A database in which the floor version and the three versions are applied.\<close>

definition world_ABC :: "string list world" where
  "world_ABC =
     with_rows
       [\<lparr>version = ''00010101T000000Z'', vname = ''nil''\<rparr>,
        \<lparr>version = ''20200101T000000Z'', vname = ''a''\<rparr>,
        \<lparr>version = ''20200201T000000Z'', vname = ''b''\<rparr>,
        \<lparr>version = ''20200301T000000Z'', vname = ''c''\<rparr>]"

section \<open>Helper lemmas\<close>

lemmas driver_defs = db_Exec_New_def db_QueryRow_Last_def db_Begin_def tx_Exec_Insert_def
  tx_Exec_Delete_def tx_Commit_def tx_Rollback_def call_func_def logged_def

lemma sorted_migrations_sorted: "sorted (sorted_migrations ms)"
  by (simp add: sorted_migrations_def sorted_list_of_fset.rep_eq)

lemma sorted_migrations_distinct: "distinct (sorted_migrations ms)"
  by (simp add: sorted_migrations_def sorted_list_of_fset.rep_eq)

lemma sorted_migrations_set: "set (sorted_migrations ms) = fset (fmdom ms)"
  by (simp add: sorted_migrations_def sorted_list_of_fset.rep_eq)

lemma filter_sorted_list_of_set:
  assumes "finite A"
  shows "filter P (sorted_list_of_set A) = sorted_list_of_set {x \<in> A. P x}"
proof (rule sorted_distinct_set_unique)
  show "sorted (filter P (sorted_list_of_set A))"
    by (simp add: sorted_wrt_filter)
  show "set (filter P (sorted_list_of_set A)) = set (sorted_list_of_set {x \<in> A. P x})"
    using assms by auto
qed (use assms in simp_all)

lemma sorted_migrations_filter:
  "filter P (sorted_migrations ms) = sorted_list_of_set {v \<in> fset (fmdom ms). P v}"
  by (simp add: sorted_migrations_def sorted_list_of_fset.rep_eq filter_sorted_list_of_set)

lemma ordered_down: "ordered False (sorted_migrations ms) = rev (sorted_migrations ms)"
  by (simp add: ordered_def sorted_sort_id sorted_migrations_sorted)

text \<open>The loop skips the versions that are not to be migrated: it runs over the plan.\<close>

lemma Migrate_loop_filter:
  "Migrate_loop ms fs c t u (filter (\<lambda>v. shouldMigrate v c t u) vs) w = Migrate_loop ms fs c t u vs w"
  by (induction vs arbitrary: w) (auto split: prod.splits outcome.splits option.splits)

lemma Migrate_loop_plan:
  "Migrate_loop ms fs c t (direction c t) (ordered (direction c t) (sorted_migrations ms)) w
     = Migrate_loop ms fs c t (fst (plan ms c t)) (snd (plan ms c t)) w"
  by (simp add: plan_def Let_def Migrate_loop_filter)


lemma shouldMigrate_same: "\<not> shouldMigrate v x x u"
  by (auto simp: shouldMigrate_def)

lemma Migrate_loop_same: "Migrate_loop ms fs x x u vs w = (Returned None, w)"
  by (induction vs) (simp_all add: shouldMigrate_same)

lemma sorted_last_Max: "sorted xs \<Longrightarrow> xs \<noteq> [] \<Longrightarrow> last xs = Max (set xs)"
proof -
  assume s: "sorted xs" and n: "xs \<noteq> []"
  have "xs = butlast xs @ [last xs]" using n by simp
  then have "sorted (butlast xs @ [last xs])" using s by simp
  then have "\<forall>y\<in>set (butlast xs). y \<le> last xs" by (simp add: sorted_append)
  moreover have "set xs = insert (last xs) (set (butlast xs))"
    using n by (metis append_butlast_last_id list.simps(15) rotate1.simps(2) set_rotate1)
  ultimately show ?thesis
    by (intro Max_eqI [symmetric]) auto
qed

lemma sorted_migrations_nonempty: "fmdom ms \<noteq> {||} \<Longrightarrow> sorted_migrations ms \<noteq> []"
  by (metis sorted_migrations_set bot_fset.rep_eq fset_inject set_empty)

lemma last_sorted_migrations:
  "fmdom ms \<noteq> {||} \<Longrightarrow> last (sorted_migrations ms) = Max (fset (fmdom ms))"
  using sorted_last_Max [OF sorted_migrations_sorted, of ms]
  by (simp add: sorted_migrations_nonempty sorted_migrations_set)





lemma take1_rev_sort:
  assumes "xs \<noteq> []"
  shows "take 1 (rev (sort xs)) = [Max (set xs)]"
proof -
  have n: "sort xs \<noteq> []" using assms by (metis length_sort length_0_conv)
  have "last (sort xs) = Max (set (sort xs))" using n by (intro sorted_last_Max) simp_all
  moreover have "take 1 (rev (sort xs)) = [last (sort xs)]"
    using n by (cases "rev (sort xs)") (auto simp: last_rev [symmetric] simp del: last_rev)
  ultimately show ?thesis by simp
qed

lemma init_registry0: "init = Inr registry0"
  by (simp add: init_def Register_def registry0_def Option.is_none_def)

subsection \<open>The calls of a run, whatever fails\<close>

lemma db_Begin_calls: "db_Begin fs v w = (e, w') \<Longrightarrow> calls w' = calls w @ [Begin v]"
  by (auto simp: db_Begin_def logged_def Let_def split: option.splits)

lemma call_func_calls: "call_func c f w = (e, w') \<Longrightarrow> calls w' = calls w @ [c]"
  by (auto simp: call_func_def logged_def Let_def split: prod.splits)

lemma tx_Exec_Insert_calls:
  "tx_Exec_Insert fs v n w = (e, w') \<Longrightarrow> calls w' = calls w @ [ExecInsert v n]"
  by (auto simp: tx_Exec_Insert_def logged_def Let_def split: option.splits sum.splits)

lemma tx_Exec_Delete_calls:
  "tx_Exec_Delete fs v w = (e, w') \<Longrightarrow> calls w' = calls w @ [ExecDelete v]"
  by (auto simp: tx_Exec_Delete_def logged_def Let_def split: option.splits sum.splits)

lemma tx_Commit_calls: "tx_Commit fs v w = (e, w') \<Longrightarrow> calls w' = calls w @ [Commit v]"
  by (auto simp: tx_Commit_def logged_def Let_def split: option.splits)

lemma tx_Rollback_calls: "tx_Rollback fs v w = (e, w') \<Longrightarrow> calls w' = calls w @ [Rollback v]"
  by (auto simp: tx_Rollback_def logged_def Let_def split: option.splits)

text \<open>The calls of \<open>migrate\<close>: none (a panic), the action, or the action and the write.\<close>

lemma migrate_calls:
  assumes "migrate ms fs v u w = (out, w')"
  shows "\<exists>cs. calls w' = calls w @ cs
           \<and> (cs = [] \<or> cs = [if u then CallUp v else CallDown v]
               \<or> (\<exists>n. cs = [if u then CallUp v else CallDown v,
                              if u then ExecInsert v n else ExecDelete v]))
           \<and> (out = Returned None \<longrightarrow> length cs = 2)"
  using assms unfolding migrate_def
  by (auto split: option.splits prod.splits if_splits
      dest!: call_func_calls tx_Exec_Insert_calls tx_Exec_Delete_calls)

text \<open>
  What one pass of the loop body adds to the calls: it begins a transaction for \<open>v\<close>; it
  calls the function of its direction for \<open>v\<close> at most once and the other never; it commits
  at most once; and when it ends without returning, it has called the function and
  committed.
\<close>

lemma Migrate_body_trace:
  assumes "Migrate_body ms fs v u w = (out, w')"
  shows "\<exists>cs as. (cs = [] \<or> cs = [v]) \<and> (as = [] \<or> as = [v])
           \<and> begun w' = begun w @ [v]
           \<and> committed w' = committed w @ cs
           \<and> ups w' = ups w @ (if u then as else [])
           \<and> downs w' = downs w @ (if u then [] else as)
           \<and> (out = Returned None \<longrightarrow> cs = [v] \<and> as = [v])"
proof -
  obtain e w1 where b: "db_Begin fs v w = (e, w1)" by (cases "db_Begin fs v w")
  note c1 = db_Begin_calls [OF b]
  show ?thesis
  proof (cases e)
    case (Some err)
    with assms b have "w' = w1" "out \<noteq> Returned None" by (auto simp: Migrate_body_def)
    with c1 show ?thesis
      by (intro exI [of _ "[]"]) (simp add: begun_def committed_def ups_def downs_def)
  next
    case None
    obtain o2 w2 where m: "migrate ms fs v u w1 = (o2, w2)" by (cases "migrate ms fs v u w1")
    from migrate_calls [OF m] obtain ms_calls where c2: "calls w2 = calls w1 @ ms_calls"
      and sh: "ms_calls = [] \<or> ms_calls = [if u then CallUp v else CallDown v]
               \<or> (\<exists>n. ms_calls = [if u then CallUp v else CallDown v,
                              if u then ExecInsert v n else ExecDelete v])"
      and ok: "o2 = Returned None \<longrightarrow> length ms_calls = 2"
      by blast
    define as where "as = (if ms_calls = [] then [] else [v])"
    have obs2: "begun w2 = begun w @ [v]" "committed w2 = committed w"
      "ups w2 = ups w @ (if u then as else [])" "downs w2 = downs w @ (if u then [] else as)"
      using sh c1 c2 by (auto simp: as_def begun_def committed_def ups_def downs_def)
    have as: "as = [] \<or> as = [v]" by (simp add: as_def)
    show ?thesis
    proof (cases o2)
      case (Panicked p)
      with assms b None m have "w' = w2" "out \<noteq> Returned None" by (auto simp: Migrate_body_def)
      with obs2 as show ?thesis by (intro exI [of _ "[]"] exI [of _ as]) simp
    next
      case (Returned r)
      show ?thesis
      proof (cases r)
        case (Some err)
        obtain e3 w3 where r3: "tx_Rollback fs v (w2\<lparr>stderr := stderr w2 @ [ErrorMigrating v err]\<rparr>) = (e3, w3)"
          by (cases "tx_Rollback fs v (w2\<lparr>stderr := stderr w2 @ [ErrorMigrating v err]\<rparr>)")
        from tx_Rollback_calls [OF r3] have c3: "calls w3 = calls w2 @ [Rollback v]" by simp
        from assms b None m Returned Some r3 have "w' = w3" "out \<noteq> Returned None"
          by (auto simp: Migrate_body_def Let_def split: option.splits)
        moreover have "begun w3 = begun w2" "committed w3 = committed w2" "ups w3 = ups w2"
          "downs w3 = downs w2"
          using c3 by (simp_all add: begun_def committed_def ups_def downs_def)
        ultimately show ?thesis using obs2 as
          by (intro exI [of _ "[]"] exI [of _ as]) simp
      next
        case None2: None
        obtain e3 w3 where r3: "tx_Commit fs v w2 = (e3, w3)" by (cases "tx_Commit fs v w2")
        from tx_Commit_calls [OF r3] have c3: "calls w3 = calls w2 @ [Commit v]" .
        from assms b None m Returned None2 r3 have "w' = w3"
          by (auto simp: Migrate_body_def split: option.splits)
        moreover have "begun w3 = begun w2" "committed w3 = committed w2 @ [v]" "ups w3 = ups w2"
          "downs w3 = downs w2"
          using c3 by (simp_all add: begun_def committed_def ups_def downs_def)
        moreover have "as = [v]" using ok Returned None2 by (auto simp: as_def)
        ultimately show ?thesis using obs2
          by (intro exI [of _ "[v]"] exI [of _ as]) simp
      qed
    qed
  qed
qed

text \<open>
  What the loop adds to the calls, whatever fails: it begins, acts on and commits initial
  segments of the versions to be migrated, in their order, and all of them when it
  returns nil.
\<close>

lemma Migrate_loop_trace:
  assumes "Migrate_loop ms fs c t u vs w = (out, w')"
  shows "\<exists>bs cs as.
           prefix bs (filter (\<lambda>v. shouldMigrate v c t u) vs)
           \<and> prefix cs (filter (\<lambda>v. shouldMigrate v c t u) vs)
           \<and> prefix as (filter (\<lambda>v. shouldMigrate v c t u) vs)
           \<and> begun w' = begun w @ bs
           \<and> committed w' = committed w @ cs
           \<and> ups w' = ups w @ (if u then as else [])
           \<and> downs w' = downs w @ (if u then [] else as)
           \<and> (out = Returned None \<longrightarrow>
                 bs = filter (\<lambda>v. shouldMigrate v c t u) vs
                 \<and> cs = filter (\<lambda>v. shouldMigrate v c t u) vs
                 \<and> as = filter (\<lambda>v. shouldMigrate v c t u) vs)"
  using assms
proof (induction vs arbitrary: w)
  case Nil
  then show ?case by auto
next
  case (Cons v vs)
  let ?L = "filter (\<lambda>v. shouldMigrate v c t u) vs"
  show ?case
  proof (cases "shouldMigrate v c t u")
    case False
    with Cons.prems have "Migrate_loop ms fs c t u vs w = (out, w')" by simp
    from Cons.IH [OF this] False show ?thesis by simp
  next
    case True
    obtain o1 w1 where b: "Migrate_body ms fs v u w = (o1, w1)"
      by (cases "Migrate_body ms fs v u w")
    from Migrate_body_trace [OF b] obtain c1 a1 where
      s1: "c1 = [] \<or> c1 = [v]" "a1 = [] \<or> a1 = [v]"
      and o: "begun w1 = begun w @ [v]" "committed w1 = committed w @ c1"
        "ups w1 = ups w @ (if u then a1 else [])" "downs w1 = downs w @ (if u then [] else a1)"
      and k: "o1 = Returned None \<longrightarrow> c1 = [v] \<and> a1 = [v]"
      by blast
    show ?thesis
    proof (cases "o1 = Returned None")
      case ok: True
      with Cons.prems True b have "Migrate_loop ms fs c t u vs w1 = (out, w')" by simp
      from Cons.IH [OF this] obtain bs cs as where
        p: "prefix bs ?L" "prefix cs ?L" "prefix as ?L"
        and o': "begun w' = begun w1 @ bs" "committed w' = committed w1 @ cs"
          "ups w' = ups w1 @ (if u then as else [])" "downs w' = downs w1 @ (if u then [] else as)"
        and k': "out = Returned None \<longrightarrow> bs = ?L \<and> cs = ?L \<and> as = ?L"
        by blast
      from k ok have e: "c1 = [v]" "a1 = [v]" by simp_all
      show ?thesis
        using True p o o' k' e
        by (intro exI [of _ "v # bs"] exI [of _ "v # cs"] exI [of _ "v # as"]) simp
    next
      case stop: False
      with Cons.prems True b have r: "out = o1" "w' = w1"
        by (auto split: outcome.splits option.splits)
      have pc: "prefix c1 (v # ?L)" "prefix a1 (v # ?L)" using s1 by auto
      show ?thesis
        using True stop r o pc
        by (intro exI [of _ "[v]"] exI [of _ c1] exI [of _ a1]) simp
    qed
  qed
qed

lemma db_Exec_New_calls: "db_Exec_New fs w = (e, w') \<Longrightarrow> calls w' = calls w @ [ExecNew]"
  by (auto simp: db_Exec_New_def logged_def Let_def split: option.splits)

lemma currentVersion_calls: "currentVersion fs w = (r, w') \<Longrightarrow> calls w' = calls w @ [QueryLast]"
  by (auto simp: currentVersion_def db_QueryRow_Last_def logged_def Let_def
      split: option.splits sum.splits list.splits if_splits prod.splits)

text \<open>
  The same of \<open>Migrate\<close>, once the target is resolved, the table created and the current
  version read: the versions are those of the plan, in the plan's direction and order.
\<close>

lemma Migrate_trace:
  assumes r: "resolve_target (sorted_migrations ms) target0 = Inr target"
    and e: "db_Exec_New fs w = (None, w1)"
    and q: "currentVersion fs w1 = ((current, None), w2)"
    and m: "Migrate ms fs target0 w = (out, w')"
  shows "\<exists>bs cs as.
           prefix bs (snd (plan ms current target))
           \<and> prefix cs (snd (plan ms current target))
           \<and> prefix as (snd (plan ms current target))
           \<and> begun w' = begun w @ bs
           \<and> committed w' = committed w @ cs
           \<and> ups w' = ups w @ (if direction current target then as else [])
           \<and> downs w' = downs w @ (if direction current target then [] else as)
           \<and> (out = Returned None \<longrightarrow>
                 bs = snd (plan ms current target) \<and> cs = snd (plan ms current target)
                 \<and> as = snd (plan ms current target))"
proof -
  have l: "Migrate_loop ms fs current target (direction current target)
             (ordered (direction current target) (sorted_migrations ms)) w2 = (out, w')"
    using r e q m by (simp add: Migrate_def Let_def)
  have c: "calls w2 = calls w @ [ExecNew, QueryLast]"
    using db_Exec_New_calls [OF e] currentVersion_calls [OF q] by simp
  have o: "begun w2 = begun w" "committed w2 = committed w" "ups w2 = ups w" "downs w2 = downs w"
    using c by (simp_all add: begun_def committed_def ups_def downs_def)
  from Migrate_loop_trace [OF l] show ?thesis
    by (simp add: plan_def Let_def o)
qed

subsection \<open>A run that nothing fails\<close>

lemma no_faults_all: "\<forall>c. no_faults c = None"
  by (simp add: no_faults_def)

lemma fmdom_registry_ABC:
  "fmdom registry_ABC
     = {|''00010101T000000Z'', ''20200101T000000Z'', ''20200201T000000Z'', ''20200301T000000Z''|}"
  by (auto simp: registry_ABC_def registry0_def)

lemma currentVersion_ok:
  assumes "fs QueryLast = None" and "versions (database w) = Some rs"
  shows "currentVersion fs w = ((greatest (map version rs), None), w\<lparr>calls := calls w @ [QueryLast]\<rparr>)"
proof (cases "rs = []")
  case True
  with assms show ?thesis
    by (simp add: currentVersion_def db_QueryRow_Last_def queryVersionsLast_def Let_def
        logged_def greatest_def)
next
  case False
  then have "take 1 (rev (sort (map version rs))) = [Max (set (map version rs))]"
    by (intro take1_rev_sort) simp
  with assms False show ?thesis
    by (simp add: currentVersion_def db_QueryRow_Last_def queryVersionsLast_def Let_def
        logged_def greatest_def)
qed

lemma db_Exec_New_ok:
  assumes "fs ExecNew = None"
  shows "db_Exec_New fs w
    = (None, w\<lparr>calls := calls w @ [ExecNew], database := queryVersionsNew (database w)\<rparr>)"
  using assms by (simp add: db_Exec_New_def logged_def Let_def)

lemma queryVersionsNew_rows:
  "\<exists>rs. versions (queryVersionsNew d) = Some rs \<and> map version rs = applied d"
  by (cases "versions d") (simp_all add: queryVersionsNew_def applied_def)

lemma set_plan:
  "set (snd (plan ms c t)) = {v \<in> fset (fmdom ms). shouldMigrate v c t (direction c t)}"
  by (auto simp: plan_def Let_def ordered_def sorted_migrations_set)

lemma fst_plan: "fst (plan ms c t) = direction c t"
  by (simp add: plan_def Let_def)

text \<open>One pass of the loop body whose action and calls succeed.\<close>

lemma Migrate_body_ok:
  assumes m: "fmlookup ms v = Some m"
    and f: "(if u then up m else down m) = Some f"
    and fd: "f (database w) = (None, d')"
    and bk: "(if u then queryVersionsInsert v (name m) d' else queryVersionsDelete v d') = Inr d''"
    and nf: "\<forall>c. fs c = None"
  shows "\<exists>w'. Migrate_body ms fs v u w = (Returned None, w')
           \<and> database w' = d'' \<and> stderr w' = stderr w"
proof -
  have b: "db_Begin fs v w = (None, w\<lparr>calls := calls w @ [Begin v], tx := database w\<rparr>)"
    using nf by (simp add: db_Begin_def logged_def Let_def)
  have "\<exists>w2. migrate ms fs v u (w\<lparr>calls := calls w @ [Begin v], tx := database w\<rparr>)
           = (Returned None, w2) \<and> tx w2 = d'' \<and> stderr w2 = stderr w"
    using nf m f fd bk
    by (cases u)
      (simp_all add: migrate_def call_func_def tx_Exec_Insert_def tx_Exec_Delete_def logged_def Let_def)
  then obtain w2 where g: "migrate ms fs v u (w\<lparr>calls := calls w @ [Begin v], tx := database w\<rparr>)
           = (Returned None, w2)" and t2: "tx w2 = d''" and e2: "stderr w2 = stderr w"
    by blast
  have "Migrate_body ms fs v u w = (Returned None, w2\<lparr>calls := calls w2 @ [Commit v], database := d''\<rparr>)"
    using nf by (simp add: Migrate_body_def b g tx_Commit_def logged_def Let_def t2)
  then show ?thesis using e2 by simp
qed

text \<open>The loop over versions that are all to be migrated, every action and call succeeding.\<close>

lemma Migrate_loop_ok:
  assumes nf: "\<forall>c. fs c = None"
    and sel: "\<forall>v\<in>set ps. shouldMigrate v c t u"
    and ok: "actions_succeed ms u ps (database w)"
    and tbl: "versions (database w) = Some rs"
  shows "\<exists>w' rs'. Migrate_loop ms fs c t u ps w = (Returned None, w')
           \<and> versions (database w') = Some rs'
           \<and> map version rs' =
               (if u then map version rs @ ps else filter (\<lambda>x. x \<notin> set ps) (map version rs))
           \<and> stderr w' = stderr w"
  using sel ok tbl
proof (induction ps arbitrary: w rs)
  case Nil
  then show ?case by simp
next
  case (Cons v ps)
  from Cons.prems(2) obtain m f d' d'' where m: "fmlookup ms v = Some m"
    and f: "(if u then up m else down m) = Some f"
    and fd: "f (database w) = (None, d')"
    and vd: "versions d' = versions (database w)"
    and bk: "(if u then queryVersionsInsert v (name m) d' else queryVersionsDelete v d') = Inr d''"
    and rest: "actions_succeed ms u ps d''"
    by (auto split: option.splits prod.splits sum.splits)
  from Migrate_body_ok [OF m f fd bk nf]
  obtain w1 where b: "Migrate_body ms fs v u w = (Returned None, w1)"
    and d1: "database w1 = d''" and e1: "stderr w1 = stderr w"
    by blast
  have t1: "versions d'' =
      Some (if u then rs @ [\<lparr>version = v, vname = name m\<rparr>] else filter (\<lambda>r. version r \<noteq> v) rs)"
    using bk vd Cons.prems(3)
    by (auto simp: queryVersionsInsert_def queryVersionsDelete_def split: if_splits)
  from Cons.IH [of w1] Cons.prems(1) rest t1 d1
  obtain w' rs' where l: "Migrate_loop ms fs c t u ps w1 = (Returned None, w')"
    and t': "versions (database w') = Some rs'"
    and v': "map version rs' =
       (if u then map version (rs @ [\<lparr>version = v, vname = name m\<rparr>]) @ ps
        else filter (\<lambda>x. x \<notin> set ps) (map version (filter (\<lambda>r. version r \<noteq> v) rs)))"
    and e': "stderr w' = stderr w1"
    by (cases u) auto
  have "Migrate_loop ms fs c t u (v # ps) w = (Returned None, w')"
    using Cons.prems(1) b l by simp
  moreover have "filter (\<lambda>x. x \<notin> set ps) (map version (filter (\<lambda>r. version r \<noteq> v) rs))
      = filter (\<lambda>x. x \<notin> set (v # ps)) (map version rs)"
    by (induction rs) auto
  ultimately show ?case using t' v' e' e1 by (cases u) simp_all
qed

text \<open>
  \<open>Migrate\<close>, every action and call succeeding: it returns nil; it has begun and committed
  the plan; the table holds, going up, the versions it held and the plan after them,
  and, going down, the versions it held less those of the plan.
\<close>

lemma Migrate_ok:
  assumes nf: "\<forall>c. fs c = None"
    and r: "resolve_target (sorted_migrations ms) target = Inr t"
    and cur: "cur = greatest (applied (database w))"
    and p: "p = snd (plan ms cur t)"
    and ok: "actions_succeed ms (direction cur t) p (queryVersionsNew (database w))"
  shows "\<exists>w'. Migrate ms fs target w = (Returned None, w')
           \<and> versions (database w') \<noteq> None
           \<and> applied (database w') =
               (if cur \<le> t then applied (database w) @ p
                else filter (\<lambda>x. x \<notin> set p) (applied (database w)))
           \<and> begun w' = begun w @ p
           \<and> committed w' = committed w @ p
           \<and> stderr w' = stderr w"
proof -
  define w1 where "w1 = w\<lparr>calls := calls w @ [ExecNew], database := queryVersionsNew (database w)\<rparr>"
  define w2 where "w2 = w1\<lparr>calls := calls w1 @ [QueryLast]\<rparr>"
  obtain rs where rs: "versions (queryVersionsNew (database w)) = Some rs"
    and ap: "map version rs = applied (database w)"
    using queryVersionsNew_rows by blast
  have e: "db_Exec_New fs w = (None, w1)"
    using nf by (simp add: db_Exec_New_ok w1_def)
  have t1: "versions (database w1) = Some rs" by (simp add: w1_def rs)
  have q: "currentVersion fs w1 = ((cur, None), w2)"
    using nf currentVersion_ok [of fs w1 rs] t1 by (simp add: w2_def cur ap)
  have t2: "versions (database w2) = Some rs" by (simp add: w2_def t1)
  have d2: "database w2 = queryVersionsNew (database w)" by (simp add: w2_def w1_def)
  have obs: "begun w2 = begun w" "committed w2 = committed w" "stderr w2 = stderr w"
    by (simp_all add: w2_def w1_def begun_def committed_def)
  have M: "Migrate ms fs target w = Migrate_loop ms fs cur t (direction cur t) p w2"
    using r e q by (simp add: Migrate_def Let_def Migrate_loop_plan fst_plan p)
  have sel: "\<forall>v\<in>set p. shouldMigrate v cur t (direction cur t)"
    by (auto simp: p set_plan)
  then have fl: "filter (\<lambda>v. shouldMigrate v cur t (direction cur t)) p = p"
    by (simp add: filter_id_conv)
  have ok2: "actions_succeed ms (direction cur t) p (database w2)"
    using ok by (simp add: d2)
  from Migrate_loop_ok [OF nf sel ok2 t2]
  obtain w' rs' where l: "Migrate_loop ms fs cur t (direction cur t) p w2 = (Returned None, w')"
    and t': "versions (database w') = Some rs'"
    and v': "map version rs' =
       (if direction cur t then map version rs @ p else filter (\<lambda>x. x \<notin> set p) (map version rs))"
    and e': "stderr w' = stderr w2"
    by blast
  from Migrate_loop_trace [OF l] have "begun w' = begun w2 @ p" "committed w' = committed w2 @ p"
    by (auto simp: fl)
  then show ?thesis
    using M l t' v' e' obs ap by (simp add: applied_def direction_def not_less)
qed

lemma fmdom_registry_strict:
  "fmdom registry_strict
     = {|''00010101T000000Z'', ''20200101T000000Z'', ''20200201T000000Z'', ''20200301T000000Z''|}"
  by (auto simp: registry_strict_def registry0_def)

lemma floor_least_registry_strict: "\<forall>v\<in>fset (fmdom registry_strict). floor_version \<le> v"
  by (simp add: fmdom_registry_strict floor_version_def)

section \<open>The plan\<close>

text \<open>
  C1. \<open>Migrate\<close> has resolved its target, created the table and read the current version,
  and \<open>current \<le> target\<close>. Then the direction is up and the plan is exactly the registered
  versions \<open>v\<close> with \<open>current < v \<le> target\<close>, strictly ascending. Whatever fails, \<open>Migrate\<close>
  begins transactions for, calls the up functions of, and commits initial segments of that
  list, in its order, and calls no down function; when it returns nil it has begun,
  migrated up and committed every version of the list, in ascending order.
\<close>

theorem Migrate_plan_up:
  assumes "resolve_target (sorted_migrations ms) target0 = Inr target"
    and "db_Exec_New fs w = (None, w1)"
    and "currentVersion fs w1 = ((current, None), w2)"
    and "current \<le> target"
    and "Migrate ms fs target0 w = (out, w')"
  shows "plan ms current target =
           (True, sorted_list_of_set {v \<in> fset (fmdom ms). current < v \<and> v \<le> target})
         \<and> set (snd (plan ms current target)) = {v \<in> fset (fmdom ms). current < v \<and> v \<le> target}
         \<and> sorted_wrt (<) (snd (plan ms current target))
         \<and> (\<exists>bs cs as.
               prefix bs (sorted_list_of_set {v \<in> fset (fmdom ms). current < v \<and> v \<le> target})
               \<and> prefix cs (sorted_list_of_set {v \<in> fset (fmdom ms). current < v \<and> v \<le> target})
               \<and> prefix as (sorted_list_of_set {v \<in> fset (fmdom ms). current < v \<and> v \<le> target})
               \<and> begun w' = begun w @ bs
               \<and> committed w' = committed w @ cs
               \<and> ups w' = ups w @ as)
         \<and> downs w' = downs w
         \<and> (out = Returned None \<longrightarrow>
               begun w' = begun w @ sorted_list_of_set {v \<in> fset (fmdom ms). current < v \<and> v \<le> target}
               \<and> ups w' = ups w @ sorted_list_of_set {v \<in> fset (fmdom ms). current < v \<and> v \<le> target}
               \<and> committed w' =
                   committed w @ sorted_list_of_set {v \<in> fset (fmdom ms). current < v \<and> v \<le> target})"
proof -
  let ?L = "sorted_list_of_set {v \<in> fset (fmdom ms). current < v \<and> v \<le> target}"
  have u: "direction current target" using assms(4) by (simp add: direction_def)
  have p: "plan ms current target = (True, ?L)"
    using u by (simp add: plan_def ordered_def shouldMigrate_def sorted_migrations_filter)
  from Migrate_trace [OF assms(1,2,3,5)] obtain bs cs as where
    t: "prefix bs ?L" "prefix cs ?L" "prefix as ?L"
      "begun w' = begun w @ bs" "committed w' = committed w @ cs"
      "ups w' = ups w @ as" "downs w' = downs w"
      "out = Returned None \<longrightarrow> bs = ?L \<and> cs = ?L \<and> as = ?L"
    using u by (auto simp: p)
  have a: "set (snd (plan ms current target)) = {v \<in> fset (fmdom ms). current < v \<and> v \<le> target}"
    "sorted_wrt (<) (snd (plan ms current target))"
    unfolding p by (simp_all add: strict_sorted_iff)
  from t have x: "\<exists>bs cs as. prefix bs ?L \<and> prefix cs ?L \<and> prefix as ?L
      \<and> begun w' = begun w @ bs \<and> committed w' = committed w @ cs \<and> ups w' = ups w @ as"
    by blast
  from t have y: "out = Returned None \<longrightarrow>
      begun w' = begun w @ ?L \<and> ups w' = ups w @ ?L \<and> committed w' = committed w @ ?L"
    by simp
  from p a x t(7) y show ?thesis by blast
qed

theorem Migrate_plan_up_witness:
  "resolve_target (sorted_migrations registry_ABC) ''20200301T000000Z'' = Inr ''20200301T000000Z''
   \<and> db_Exec_New no_faults after_A = (None, logged ExecNew after_A)
   \<and> currentVersion no_faults (logged ExecNew after_A)
       = ((''20200101T000000Z'', None), logged QueryLast (logged ExecNew after_A))
   \<and> ''20200101T000000Z'' \<le> ''20200301T000000Z''
   \<and> Migrate registry_ABC no_faults ''20200301T000000Z'' after_A
       = (Returned None, snd (Migrate registry_ABC no_faults ''20200301T000000Z'' after_A))
   \<and> plan registry_ABC ''20200101T000000Z'' ''20200301T000000Z''
       = (True, [''20200201T000000Z'', ''20200301T000000Z''])
   \<and> begun (snd (Migrate registry_ABC no_faults ''20200301T000000Z'' after_A))
       = begun after_A @ [''20200201T000000Z'', ''20200301T000000Z'']
   \<and> ups (snd (Migrate registry_ABC no_faults ''20200301T000000Z'' after_A))
       = ups after_A @ [''20200201T000000Z'', ''20200301T000000Z'']
   \<and> committed (snd (Migrate registry_ABC no_faults ''20200301T000000Z'' after_A))
       = committed after_A @ [''20200201T000000Z'', ''20200301T000000Z'']
   \<and> downs (snd (Migrate registry_ABC no_faults ''20200301T000000Z'' after_A)) = downs after_A"
proof -
  have h1: "resolve_target (sorted_migrations registry_ABC) ''20200301T000000Z''
      = Inr ''20200301T000000Z''"
    by (simp add: resolve_target_def)
  have h2: "db_Exec_New no_faults after_A = (None, logged ExecNew after_A)"
    by code_simp
  have h3: "currentVersion no_faults (logged ExecNew after_A)
       = ((''20200101T000000Z'', None), logged QueryLast (logged ExecNew after_A))"
    by code_simp
  have h4: "''20200101T000000Z'' \<le> ''20200301T000000Z''" by simp
  have f: "fst (Migrate registry_ABC no_faults ''20200301T000000Z'' after_A) = Returned None"
    by code_simp
  have h5: "Migrate registry_ABC no_faults ''20200301T000000Z'' after_A
       = (Returned None, snd (Migrate registry_ABC no_faults ''20200301T000000Z'' after_A))"
    using f by (simp add: prod_eq_iff)
  have e: "plan registry_ABC ''20200101T000000Z'' ''20200301T000000Z''
       = (True, [''20200201T000000Z'', ''20200301T000000Z''])"
    by code_simp
  from Migrate_plan_up [OF h1 h2 h3 h4 h5] e
  have "begun (snd (Migrate registry_ABC no_faults ''20200301T000000Z'' after_A))
       = begun after_A @ [''20200201T000000Z'', ''20200301T000000Z'']
   \<and> ups (snd (Migrate registry_ABC no_faults ''20200301T000000Z'' after_A))
       = ups after_A @ [''20200201T000000Z'', ''20200301T000000Z'']
   \<and> committed (snd (Migrate registry_ABC no_faults ''20200301T000000Z'' after_A))
       = committed after_A @ [''20200201T000000Z'', ''20200301T000000Z'']
   \<and> downs (snd (Migrate registry_ABC no_faults ''20200301T000000Z'' after_A)) = downs after_A"
    by simp
  with h1 h2 h3 h4 h5 e show ?thesis by blast
qed

text \<open>
  C2. \<open>Migrate\<close> has resolved its target, created the table and read the current version,
  and \<open>current > target\<close>. Then the direction is down and the plan is exactly the registered
  versions \<open>v\<close> with \<open>target < v \<le> current\<close>, strictly descending. Whatever fails, \<open>Migrate\<close>
  begins transactions for, calls the down functions of, and commits initial segments of
  that list, in its order, and calls no up function; when it returns nil it has begun,
  reverted and committed every version of the list, the greatest first.
\<close>

theorem Migrate_plan_down:
  assumes "resolve_target (sorted_migrations ms) target0 = Inr target"
    and "db_Exec_New fs w = (None, w1)"
    and "currentVersion fs w1 = ((current, None), w2)"
    and "current > target"
    and "Migrate ms fs target0 w = (out, w')"
  shows "plan ms current target =
           (False, rev (sorted_list_of_set {v \<in> fset (fmdom ms). target < v \<and> v \<le> current}))
         \<and> set (snd (plan ms current target)) = {v \<in> fset (fmdom ms). target < v \<and> v \<le> current}
         \<and> sorted_wrt (>) (snd (plan ms current target))
         \<and> (\<exists>bs cs as.
               prefix bs (rev (sorted_list_of_set {v \<in> fset (fmdom ms). target < v \<and> v \<le> current}))
               \<and> prefix cs (rev (sorted_list_of_set {v \<in> fset (fmdom ms). target < v \<and> v \<le> current}))
               \<and> prefix as (rev (sorted_list_of_set {v \<in> fset (fmdom ms). target < v \<and> v \<le> current}))
               \<and> begun w' = begun w @ bs
               \<and> committed w' = committed w @ cs
               \<and> downs w' = downs w @ as)
         \<and> ups w' = ups w
         \<and> (out = Returned None \<longrightarrow>
               begun w' =
                 begun w @ rev (sorted_list_of_set {v \<in> fset (fmdom ms). target < v \<and> v \<le> current})
               \<and> downs w' =
                   downs w @ rev (sorted_list_of_set {v \<in> fset (fmdom ms). target < v \<and> v \<le> current})
               \<and> committed w' =
                   committed w
                   @ rev (sorted_list_of_set {v \<in> fset (fmdom ms). target < v \<and> v \<le> current}))"
proof -
  let ?L = "rev (sorted_list_of_set {v \<in> fset (fmdom ms). target < v \<and> v \<le> current})"
  have u: "\<not> direction current target" using assms(4) by (simp add: direction_def)
  have eq: "{v \<in> fset (fmdom ms). v \<le> current \<and> target < v}
          = {v \<in> fset (fmdom ms). target < v \<and> v \<le> current}" by auto
  have p: "plan ms current target = (False, ?L)"
    using u by (simp add: plan_def ordered_down shouldMigrate_def rev_filter [symmetric]
        sorted_migrations_filter eq)
  from Migrate_trace [OF assms(1,2,3,5)] obtain bs cs as where
    t: "prefix bs ?L" "prefix cs ?L" "prefix as ?L"
      "begun w' = begun w @ bs" "committed w' = committed w @ cs"
      "downs w' = downs w @ as" "ups w' = ups w"
      "out = Returned None \<longrightarrow> bs = ?L \<and> cs = ?L \<and> as = ?L"
    using u by (auto simp: p)
  have a: "set (snd (plan ms current target)) = {v \<in> fset (fmdom ms). target < v \<and> v \<le> current}"
    "sorted_wrt (>) (snd (plan ms current target))"
    unfolding p by (simp_all add: sorted_wrt_rev strict_sorted_iff)
  from t have x: "\<exists>bs cs as. prefix bs ?L \<and> prefix cs ?L \<and> prefix as ?L
      \<and> begun w' = begun w @ bs \<and> committed w' = committed w @ cs \<and> downs w' = downs w @ as"
    by blast
  from t have y: "out = Returned None \<longrightarrow>
      begun w' = begun w @ ?L \<and> downs w' = downs w @ ?L \<and> committed w' = committed w @ ?L"
    by simp
  from p a x t(7) y show ?thesis by blast
qed

theorem Migrate_plan_down_witness:
  "resolve_target (sorted_migrations registry_ABC) ''20200101T000000Z'' = Inr ''20200101T000000Z''
   \<and> db_Exec_New no_faults world_ABC = (None, logged ExecNew world_ABC)
   \<and> currentVersion no_faults (logged ExecNew world_ABC)
       = ((''20200301T000000Z'', None), logged QueryLast (logged ExecNew world_ABC))
   \<and> ''20200301T000000Z'' > ''20200101T000000Z''
   \<and> Migrate registry_ABC no_faults ''20200101T000000Z'' world_ABC
       = (Returned None, snd (Migrate registry_ABC no_faults ''20200101T000000Z'' world_ABC))
   \<and> plan registry_ABC ''20200301T000000Z'' ''20200101T000000Z''
       = (False, [''20200301T000000Z'', ''20200201T000000Z''])
   \<and> begun (snd (Migrate registry_ABC no_faults ''20200101T000000Z'' world_ABC))
       = [''20200301T000000Z'', ''20200201T000000Z'']
   \<and> downs (snd (Migrate registry_ABC no_faults ''20200101T000000Z'' world_ABC))
       = [''20200301T000000Z'', ''20200201T000000Z'']
   \<and> committed (snd (Migrate registry_ABC no_faults ''20200101T000000Z'' world_ABC))
       = [''20200301T000000Z'', ''20200201T000000Z'']
   \<and> ups (snd (Migrate registry_ABC no_faults ''20200101T000000Z'' world_ABC)) = []"
proof -
  have h1: "resolve_target (sorted_migrations registry_ABC) ''20200101T000000Z''
      = Inr ''20200101T000000Z''"
    by (simp add: resolve_target_def)
  have h2: "db_Exec_New no_faults world_ABC = (None, logged ExecNew world_ABC)"
    by code_simp
  have h3: "currentVersion no_faults (logged ExecNew world_ABC)
       = ((''20200301T000000Z'', None), logged QueryLast (logged ExecNew world_ABC))"
    by code_simp
  have h4: "''20200301T000000Z'' > ''20200101T000000Z''" by simp
  have f: "fst (Migrate registry_ABC no_faults ''20200101T000000Z'' world_ABC) = Returned None"
    by code_simp
  have h5: "Migrate registry_ABC no_faults ''20200101T000000Z'' world_ABC
       = (Returned None, snd (Migrate registry_ABC no_faults ''20200101T000000Z'' world_ABC))"
    using f by (simp add: prod_eq_iff)
  have e: "plan registry_ABC ''20200301T000000Z'' ''20200101T000000Z''
       = (False, [''20200301T000000Z'', ''20200201T000000Z''])"
    by code_simp
  have z: "begun world_ABC = []" "downs world_ABC = []" "committed world_ABC = []"
    "ups world_ABC = []"
    by (simp_all add: world_ABC_def with_rows_def begun_def downs_def committed_def ups_def)
  from Migrate_plan_down [OF h1 h2 h3 h4 h5] e
  have "begun (snd (Migrate registry_ABC no_faults ''20200101T000000Z'' world_ABC))
       = [''20200301T000000Z'', ''20200201T000000Z'']
   \<and> downs (snd (Migrate registry_ABC no_faults ''20200101T000000Z'' world_ABC))
       = [''20200301T000000Z'', ''20200201T000000Z'']
   \<and> committed (snd (Migrate registry_ABC no_faults ''20200101T000000Z'' world_ABC))
       = [''20200301T000000Z'', ''20200201T000000Z'']
   \<and> ups (snd (Migrate registry_ABC no_faults ''20200101T000000Z'' world_ABC)) = []"
    by (simp add: z)
  with h1 h2 h3 h4 h5 e show ?thesis by blast
qed

text \<open>
  C5. On a map that is not empty, \<open>Migrate\<close> with the empty target runs as \<open>Migrate\<close> with
  the greatest registered version as its target: the target is resolved before anything
  else is computed.
\<close>

theorem empty_target_latest:
  assumes "fmdom ms \<noteq> {||}"
  shows "resolve_target (sorted_migrations ms) '''' = Inr (Max (fset (fmdom ms)))
       \<and> Migrate ms fs '''' w = Migrate ms fs (Max (fset (fmdom ms))) w"
proof -
  have ne: "sorted_migrations ms \<noteq> []"
    using assms by (rule sorted_migrations_nonempty)
  have r: "resolve_target (sorted_migrations ms) '''' = Inr (Max (fset (fmdom ms)))"
    using ne by (simp add: resolve_target_def last_sorted_migrations [OF assms])
  have r': "resolve_target (sorted_migrations ms) (Max (fset (fmdom ms))) = Inr (Max (fset (fmdom ms)))"
    using ne by (simp add: resolve_target_def last_sorted_migrations [OF assms])
  show ?thesis using r r' by (simp add: Migrate_def)
qed

theorem empty_target_latest_witness:
  "fmdom registry_ABC \<noteq> {||}
   \<and> resolve_target (sorted_migrations registry_ABC) '''' = Inr (Max (fset (fmdom registry_ABC)))
   \<and> Migrate registry_ABC no_faults '''' fresh
       = Migrate registry_ABC no_faults (Max (fset (fmdom registry_ABC))) fresh
   \<and> Max (fset (fmdom registry_ABC)) = ''20200301T000000Z''"
proof -
  have h: "fmdom registry_ABC \<noteq> {||}" by (simp add: registry_ABC_def)
  have e: "Max (fset (fmdom registry_ABC)) = ''20200301T000000Z''"
    by (simp add: registry_ABC_def registry0_def)
  from h e empty_target_latest [OF h, of no_faults fresh] show ?thesis by blast
qed

text \<open>
  C6. When the current version and the target of the run are the same version \<open>x\<close>, no
  version is to be migrated in either direction, the plan is empty, and the loop returns
  nil without a call; \<open>Migrate\<close>, having created the table and read \<open>x\<close> as the current
  version, returns nil, and has made no other call and changed nothing else.
\<close>

theorem same_version_no_op:
  "\<not> shouldMigrate v x x u
   \<and> snd (plan ms x x) = []
   \<and> Migrate_loop ms fs x x u vs w = (Returned None, w)
   \<and> (resolve_target (sorted_migrations ms) target = Inr x
        \<and> db_Exec_New fs w = (None, w1) \<and> currentVersion fs w1 = ((x, None), w2)
      \<longrightarrow> Migrate ms fs target w = (Returned None, w2)
          \<and> w2 = w\<lparr>database := queryVersionsNew (database w), calls := calls w @ [ExecNew, QueryLast]\<rparr>)"
proof -
  have a: "\<not> shouldMigrate v x x u" by (rule shouldMigrate_same)
  have b: "snd (plan ms x x) = []" by (simp add: plan_def Let_def shouldMigrate_same)
  have c: "Migrate_loop ms fs x x u vs w = (Returned None, w)" by (rule Migrate_loop_same)
  have d: "Migrate ms fs target w = (Returned None, w2)
          \<and> w2 = w\<lparr>database := queryVersionsNew (database w), calls := calls w @ [ExecNew, QueryLast]\<rparr>"
    if r: "resolve_target (sorted_migrations ms) target = Inr x"
      and e: "db_Exec_New fs w = (None, w1)"
      and q: "currentVersion fs w1 = ((x, None), w2)"
  proof -
    have m: "Migrate ms fs target w = (Returned None, w2)"
      using r e q by (simp add: Migrate_def Let_def Migrate_loop_same)
    have "w1 = w\<lparr>database := queryVersionsNew (database w), calls := calls w @ [ExecNew]\<rparr>"
      using e by (auto simp: driver_defs Let_def split: option.splits)
    moreover have "w2 = w1\<lparr>calls := calls w1 @ [QueryLast]\<rparr>"
      using q
      by (auto simp: currentVersion_def driver_defs Let_def
          split: option.splits sum.splits list.splits if_splits)
    ultimately show ?thesis using m by simp
  qed
  from a b c d show ?thesis by blast
qed

theorem same_version_no_op_witness:
  "resolve_target (sorted_migrations registry_ABC) ''20200201T000000Z'' = Inr ''20200201T000000Z''
   \<and> db_Exec_New no_faults world_AB = (None, logged ExecNew world_AB)
   \<and> currentVersion no_faults (logged ExecNew world_AB)
       = ((''20200201T000000Z'', None), logged QueryLast (logged ExecNew world_AB))
   \<and> Migrate registry_ABC no_faults ''20200201T000000Z'' world_AB
       = (Returned None, logged QueryLast (logged ExecNew world_AB))
   \<and> applied (database (logged QueryLast (logged ExecNew world_AB))) = applied (database world_AB)"
proof -
  have r: "resolve_target (sorted_migrations registry_ABC) ''20200201T000000Z''
      = Inr ''20200201T000000Z''"
    by (simp add: resolve_target_def)
  have e: "db_Exec_New no_faults world_AB = (None, logged ExecNew world_AB)"
    by code_simp
  have q: "currentVersion no_faults (logged ExecNew world_AB)
       = ((''20200201T000000Z'', None), logged QueryLast (logged ExecNew world_AB))"
    by code_simp
  have k: "applied (database (logged QueryLast (logged ExecNew world_AB))) = applied (database world_AB)"
    by (simp add: logged_def)
  from r e q k
    same_version_no_op [where ms = registry_ABC and fs = no_faults and x = "''20200201T000000Z''"
      and target = "''20200201T000000Z''" and w = world_AB and ?w1.0 = "logged ExecNew world_AB"
      and ?w2.0 = "logged QueryLast (logged ExecNew world_AB)"]
  show ?thesis by blast
qed

section \<open>Runs without failure\<close>

text \<open>
  C3, as the code has it. The map holds the three versions and the floor version that
  \<open>init\<close> registers; the table is missing or has no rows; no call to the database fails, and
  every action of the run succeeds: the up functions of the four versions, each on the
  database the run calls it on. Then \<open>Migrate\<close> with the empty target returns nil; its plan
  is the floor version followed by the three versions, ascending; it commits all four;
  and \<open>currentVersion\<close> then returns the third version.
\<close>

theorem scenario_ABC_with_floor:
  assumes dom: "fmdom ms = {|''00010101T000000Z'', ''20200101T000000Z'', ''20200201T000000Z'', ''20200301T000000Z''|}"
    and nf: "\<forall>c. fs c = None"
    and empty: "applied (database w) = []"
    and ok: "actions_succeed ms True
               [''00010101T000000Z'', ''20200101T000000Z'', ''20200201T000000Z'', ''20200301T000000Z'']
               (queryVersionsNew (database w))"
  shows "\<exists>w'. Migrate ms fs '''' w = (Returned None, w')
           \<and> snd (plan ms '''' ''20200301T000000Z'')
               = [''00010101T000000Z'', ''20200101T000000Z'', ''20200201T000000Z'', ''20200301T000000Z'']
           \<and> begun w'
               = begun w @ [''00010101T000000Z'', ''20200101T000000Z'', ''20200201T000000Z'', ''20200301T000000Z'']
           \<and> committed w'
               = committed w @ [''00010101T000000Z'', ''20200101T000000Z'', ''20200201T000000Z'', ''20200301T000000Z'']
           \<and> applied (database w')
               = [''00010101T000000Z'', ''20200101T000000Z'', ''20200201T000000Z'', ''20200301T000000Z'']
           \<and> fst (currentVersion fs w') = (''20200301T000000Z'', None)"
proof -
  let ?vs = "[''00010101T000000Z'', ''20200101T000000Z'', ''20200201T000000Z'', ''20200301T000000Z'']"
  have vs: "sorted_migrations ms = ?vs"
    by (rule sorted_distinct_set_unique)
      (simp_all add: sorted_migrations_sorted sorted_migrations_distinct sorted_migrations_set dom)
  have r: "resolve_target (sorted_migrations ms) '''' = Inr ''20200301T000000Z''"
    by (simp add: resolve_target_def vs)
  have g: "greatest (applied (database w)) = ''''"
    by (simp add: empty greatest_def)
  have p: "snd (plan ms '''' ''20200301T000000Z'') = ?vs"
    by (simp add: plan_def direction_def ordered_def shouldMigrate_def vs)
  have d: "direction '''' ''20200301T000000Z''" by (simp add: direction_def)
  from Migrate_ok [OF nf r g [symmetric] p [symmetric]] ok d
  obtain w' where m: "Migrate ms fs '''' w = (Returned None, w')"
    and t: "versions (database w') \<noteq> None"
    and a: "applied (database w') = ?vs"
    and b: "begun w' = begun w @ ?vs"
    and c: "committed w' = committed w @ ?vs"
    by (auto simp: empty)
  from t obtain rs where rs: "versions (database w') = Some rs" by auto
  with a have "map version rs = ?vs" by (simp add: applied_def)
  then have "greatest (map version rs) = ''20200301T000000Z''"
    by (simp add: greatest_def)
  with currentVersion_ok [of fs w' rs] nf rs
  have "fst (currentVersion fs w') = (''20200301T000000Z'', None)" by simp
  with m p a b c show ?thesis by blast
qed

theorem scenario_ABC_with_floor_witness:
  "fmdom registry_strict
     = {|''00010101T000000Z'', ''20200101T000000Z'', ''20200201T000000Z'', ''20200301T000000Z''|}
   \<and> (\<forall>c. no_faults c = None)
   \<and> applied (database fresh) = []
   \<and> actions_succeed registry_strict True
        [''00010101T000000Z'', ''20200101T000000Z'', ''20200201T000000Z'', ''20200301T000000Z'']
        (queryVersionsNew (database fresh))
   \<and> (\<exists>w'. Migrate registry_strict no_faults '''' fresh = (Returned None, w')
         \<and> committed w'
             = [''00010101T000000Z'', ''20200101T000000Z'', ''20200201T000000Z'', ''20200301T000000Z'']
         \<and> applied (database w')
             = [''00010101T000000Z'', ''20200101T000000Z'', ''20200201T000000Z'', ''20200301T000000Z'']
         \<and> fst (currentVersion no_faults w') = (''20200301T000000Z'', None))"
proof -
  have e: "applied (database fresh) = []" by (simp add: fresh_def applied_def)
  have c: "committed fresh = []" by (simp add: fresh_def committed_def)
  have ok: "actions_succeed registry_strict True
        [''00010101T000000Z'', ''20200101T000000Z'', ''20200201T000000Z'', ''20200301T000000Z'']
        (queryVersionsNew (database fresh))"
    by code_simp
  from scenario_ABC_with_floor [OF fmdom_registry_strict no_faults_all e ok]
  have "\<exists>w'. Migrate registry_strict no_faults '''' fresh = (Returned None, w')
         \<and> committed w'
             = [''00010101T000000Z'', ''20200101T000000Z'', ''20200201T000000Z'', ''20200301T000000Z'']
         \<and> applied (database w')
             = [''00010101T000000Z'', ''20200101T000000Z'', ''20200201T000000Z'', ''20200301T000000Z'']
         \<and> fst (currentVersion no_faults w') = (''20200301T000000Z'', None)"
    by (auto simp: c)
  with fmdom_registry_strict no_faults_all e ok show ?thesis by blast
qed

text \<open>
  C3 as stated does not hold: the plan of the scenario has four entries, the floor
  version first, and four transactions are committed, not three.
\<close>

theorem scenario_ABC_counterexample:
  "snd (plan registry_ABC '''' ''20200301T000000Z'')
     = [''00010101T000000Z'', ''20200101T000000Z'', ''20200201T000000Z'', ''20200301T000000Z'']
   \<and> snd (plan registry_ABC '''' ''20200301T000000Z'')
     \<noteq> [''20200101T000000Z'', ''20200201T000000Z'', ''20200301T000000Z'']
   \<and> fst (Migrate registry_ABC no_faults '''' fresh) = Returned None
   \<and> committed (snd (Migrate registry_ABC no_faults '''' fresh))
     = [''00010101T000000Z'', ''20200101T000000Z'', ''20200201T000000Z'', ''20200301T000000Z'']"
  by code_simp

text \<open>
  C8, as the code has it. The floor version is registered and no registered version sorts
  below it; the table is missing or has no rows; no call to the database fails, and every
  action of the two runs succeeds: the up functions of the registered versions up to \<open>V\<close>,
  then the down functions of those above the floor version, each on the database the run
  calls it on. Then \<open>Migrate\<close> to a registered version \<open>V\<close> returns nil and the table holds the
  registered versions up to \<open>V\<close>, and \<open>Migrate\<close> to the floor version then returns nil and
  leaves the row of the floor version and no other.
\<close>

theorem round_trip_floor:
  assumes nf: "\<forall>c. fs c = None"
    and V: "V |\<in>| fmdom ms"
    and reg: "floor_version |\<in>| fmdom ms"
    and floor: "\<forall>v\<in>fset (fmdom ms). floor_version \<le> v"
    and empty: "applied (database w) = []"
    and ok1: "actions_succeed ms True (filter (\<lambda>v. v \<le> V) (sorted_migrations ms))
                (queryVersionsNew (database w))"
    and run1: "Migrate ms fs V w = (out1, w1)"
    and ok2: "actions_succeed ms False
                (rev (filter (\<lambda>v. floor_version < v \<and> v \<le> V) (sorted_migrations ms)))
                (database w1)"
  shows "out1 = Returned None
         \<and> applied (database w1) = filter (\<lambda>v. v \<le> V) (sorted_migrations ms)
         \<and> (\<exists>w2. Migrate ms fs floor_version w1 = (Returned None, w2)
               \<and> applied (database w2) = [floor_version])"
proof -
  let ?vs = "sorted_migrations ms"
  have fl: "'''' < floor_version" by (simp add: floor_version_def)
  have inD: "floor_version \<le> v" if "v \<in> set ?vs" for v
    using floor that by (simp add: sorted_migrations_set)
  have only: "v = floor_version" if "v \<in> set ?vs" "v \<le> floor_version" for v
    using inD [OF that(1)] that(2) by (rule order.antisym [rotated])
  have pos: "'''' < v" if "v \<in> set ?vs" for v
    using inD [OF that] fl by (meson less_le_trans)
  have Vin: "V \<in> set ?vs" using V by (simp add: sorted_migrations_set)
  have Fin: "floor_version \<in> set ?vs" using reg by (simp add: sorted_migrations_set)
  have Vn: "V \<noteq> ''''" using pos [OF Vin] by auto
  have r1: "resolve_target ?vs V = Inr V"
    using Vn by (simp add: resolve_target_def)
  have g0: "'''' = greatest (applied (database w))"
    by (simp add: empty greatest_def)
  have d1: "direction '''' V" by (simp add: direction_def)
  define p1 where "p1 = snd (plan ms '''' V)"
  have p1: "p1 = filter (\<lambda>v. v \<le> V) ?vs"
    using pos by (auto simp: p1_def plan_def d1 ordered_def shouldMigrate_def intro: filter_cong)
  have ok1': "actions_succeed ms (direction '''' V) p1 (queryVersionsNew (database w))"
    using ok1 by (simp add: d1 p1)
  from Migrate_ok [OF nf r1 g0 p1_def ok1'] run1
  have o1: "out1 = Returned None" and t1: "versions (database w1) \<noteq> None"
    and a1: "applied (database w1) = p1"
    by (auto simp: empty)
  have sd: "sorted p1" "distinct p1"
    by (simp_all add: p1 sorted_wrt_filter sorted_migrations_sorted sorted_migrations_distinct)
  have Vp: "V \<in> set p1" using Vin by (simp add: p1)
  then have ne: "p1 \<noteq> []" by auto
  have "Max (set p1) = V"
    using Vp by (intro Max_eqI) (auto simp: p1)
  then have g1: "V = greatest (applied (database w1))"
    using ne by (simp add: a1 greatest_def)
  have r2: "resolve_target ?vs floor_version = Inr floor_version"
    using fl by (auto simp: resolve_target_def)
  have q1: "queryVersionsNew (database w1) = database w1"
    using t1 by (auto simp: queryVersionsNew_def)
  define p2 where "p2 = snd (plan ms V floor_version)"
  have le: "floor_version \<le> V" using inD [OF Vin] .
  have both: "actions_succeed ms (direction V floor_version) p2 (queryVersionsNew (database w1))
      \<and> (if V \<le> floor_version then p1 @ p2 else filter (\<lambda>x. x \<notin> set p2) p1) = [floor_version]"
  proof (cases "V \<le> floor_version")
    case True
    with le have eq: "V = floor_version" by simp
    have d: "direction V floor_version" by (simp add: direction_def eq)
    have e2: "p2 = []"
      by (auto simp: p2_def plan_def Let_def direction_def ordered_def shouldMigrate_def eq
          filter_empty_conv)
    have "p1 = [floor_version]"
    proof (rule sorted_distinct_set_unique)
      show "set p1 = set [floor_version]"
        using Fin only by (auto simp: p1 eq)
    qed (use sd in simp_all)
    with True e2 d show ?thesis by simp
  next
    case False
    then have d: "\<not> direction V floor_version" by (simp add: direction_def)
    have e2: "p2 = rev (filter (\<lambda>v. floor_version < v \<and> v \<le> V) ?vs)"
      unfolding p2_def plan_def Let_def
      by (simp add: d ordered_down shouldMigrate_def rev_filter [symmetric] conj_commute)
    have "filter (\<lambda>x. x \<notin> set p2) p1 = [floor_version]"
    proof (rule sorted_distinct_set_unique)
      show "set (filter (\<lambda>x. x \<notin> set p2) p1) = set [floor_version]"
        using Fin only le by (auto simp: p1 e2 not_less)
    qed (use sd in \<open>simp_all add: sorted_wrt_filter\<close>)
    with False ok2 d show ?thesis by (simp add: e2 q1)
  qed
  from Migrate_ok [OF nf r2 g1 p2_def conjunct1 [OF both]]
  obtain w2 where m2: "Migrate ms fs floor_version w1 = (Returned None, w2)"
    and a2: "applied (database w2) =
               (if V \<le> floor_version then p1 @ p2 else filter (\<lambda>x. x \<notin> set p2) p1)"
    by (auto simp: a1)
  from o1 a1 p1 m2 a2 both show ?thesis by auto
qed

theorem round_trip_floor_witness:
  "(\<forall>c. no_faults c = None)
   \<and> ''20200201T000000Z'' |\<in>| fmdom registry_strict
   \<and> floor_version |\<in>| fmdom registry_strict
   \<and> fset (fmdom registry_strict) \<subseteq> {v. floor_version \<le> v}
   \<and> applied (database fresh) = []
   \<and> actions_succeed registry_strict True
        (filter (\<lambda>v. v \<le> ''20200201T000000Z'') (sorted_migrations registry_strict))
        (queryVersionsNew (database fresh))
   \<and> actions_succeed registry_strict False
        (rev (filter (\<lambda>v. floor_version < v \<and> v \<le> ''20200201T000000Z'')
               (sorted_migrations registry_strict)))
        (database (snd (Migrate registry_strict no_faults ''20200201T000000Z'' fresh)))
   \<and> fst (Migrate registry_strict no_faults ''20200201T000000Z'' fresh) = Returned None
   \<and> applied (database (snd (Migrate registry_strict no_faults ''20200201T000000Z'' fresh)))
       = filter (\<lambda>v. v \<le> ''20200201T000000Z'') (sorted_migrations registry_strict)
   \<and> filter (\<lambda>v. v \<le> ''20200201T000000Z'') (sorted_migrations registry_strict)
       = [''00010101T000000Z'', ''20200101T000000Z'', ''20200201T000000Z'']
   \<and> (\<exists>w2. Migrate registry_strict no_faults floor_version
               (snd (Migrate registry_strict no_faults ''20200201T000000Z'' fresh))
             = (Returned None, w2)
         \<and> applied (database w2) = [floor_version])"
proof -
  have e: "applied (database fresh) = []" by (simp add: fresh_def applied_def)
  have v: "''20200201T000000Z'' |\<in>| fmdom registry_strict" by (simp add: fmdom_registry_strict)
  have r: "floor_version |\<in>| fmdom registry_strict"
    by (simp add: fmdom_registry_strict floor_version_def)
  have f': "fset (fmdom registry_strict) \<subseteq> {v. floor_version \<le> v}"
    using floor_least_registry_strict by blast
  have ok1: "actions_succeed registry_strict True
        (filter (\<lambda>v. v \<le> ''20200201T000000Z'') (sorted_migrations registry_strict))
        (queryVersionsNew (database fresh))"
    by code_simp
  have run1: "Migrate registry_strict no_faults ''20200201T000000Z'' fresh
      = (fst (Migrate registry_strict no_faults ''20200201T000000Z'' fresh),
         snd (Migrate registry_strict no_faults ''20200201T000000Z'' fresh))"
    by simp
  have ok2: "actions_succeed registry_strict False
        (rev (filter (\<lambda>v. floor_version < v \<and> v \<le> ''20200201T000000Z'')
               (sorted_migrations registry_strict)))
        (database (snd (Migrate registry_strict no_faults ''20200201T000000Z'' fresh)))"
    by code_simp
  have k: "filter (\<lambda>v. v \<le> ''20200201T000000Z'') (sorted_migrations registry_strict)
       = [''00010101T000000Z'', ''20200101T000000Z'', ''20200201T000000Z'']"
    by code_simp
  from round_trip_floor [OF no_faults_all v r floor_least_registry_strict e ok1 run1 ok2]
    no_faults_all v r f' e ok1 ok2 k
  show ?thesis by blast
qed

text \<open>
  C8 as stated does not hold: with versions numbered \<open>0001\<close>, \<open>0002\<close>, the first sorts below
  the floor version; migrating up to \<open>0002\<close> and then down to the floor version reverts
  \<open>0002\<close> alone, and \<open>0001\<close> stays applied.
\<close>

theorem round_trip_counterexample:
  "fst (Migrate registry_numbered no_faults ''0002'' fresh) = Returned None
   \<and> applied (database (snd (Migrate registry_numbered no_faults ''0002'' fresh)))
       = [''0001'', ''00010101T000000Z'', ''0002'']
   \<and> plan registry_numbered ''0002'' floor_version = (False, [''0002''])
   \<and> fst (Migrate registry_numbered no_faults floor_version
        (snd (Migrate registry_numbered no_faults ''0002'' fresh))) = Returned None
   \<and> applied (database (snd (Migrate registry_numbered no_faults floor_version
        (snd (Migrate registry_numbered no_faults ''0002'' fresh)))))
       = [''0001'', ''00010101T000000Z'']"
  by code_simp

section \<open>Registration\<close>

text \<open>
  C9. \<open>Register\<close> panics if and only if \<open>up\<close> is nil, \<open>down\<close> is nil or the version is
  already a key of the map; when it returns, the map is the one before with the new
  migration stored under the version, and nothing else has changed.
\<close>

theorem Register_panics_iff:
  "((\<exists>p. Register vsn n u d ms = Inl p) = (u = None \<or> d = None \<or> vsn |\<in>| fmdom ms))
   \<and> (\<forall>ms'. Register vsn n u d ms = Inr ms' \<longrightarrow>
         ms' = fmupd vsn \<lparr>name = n, up = u, down = d\<rparr> ms
         \<and> fmdom ms' = finsert vsn (fmdom ms)
         \<and> (\<forall>k. k \<noteq> vsn \<longrightarrow> fmlookup ms' k = fmlookup ms k))"
  by (auto simp: Register_def Option.is_none_def fmdom_notI dest: fmdom_notD)

theorem Register_panics_iff_witness:
  "(\<exists>p. Register ''00010101T000000Z'' ''again'' (Some (create_table ''a'')) (Some (drop_table ''a'')) registry0 = Inl p)
   \<and> (\<exists>p. Register ''20200101T000000Z'' ''a'' None (Some (drop_table ''a'')) registry0 = Inl p)
   \<and> Register ''20200101T000000Z'' ''a'' (Some (create_table ''a'')) (Some (drop_table ''a'')) registry0
       = Inr (fmupd ''20200101T000000Z'' (table_migration ''a'') registry0)"
proof -
  have a: "''00010101T000000Z'' |\<in>| fmdom (registry0 :: string list migrations)"
    by (simp add: registry0_def)
  have b: "Register ''20200101T000000Z'' ''a'' (Some (create_table ''a'')) (Some (drop_table ''a'')) registry0
       = Inr (fmupd ''20200101T000000Z'' (table_migration ''a'') registry0)"
    by (simp add: Register_def registry0_def table_migration_def Option.is_none_def)
  from a b Register_panics_iff [of "''00010101T000000Z''" "''again''" "Some (create_table ''a'')"
      "Some (drop_table ''a'')" registry0]
    Register_panics_iff [of "''20200101T000000Z''" "''a''" None
      "Some (drop_table ''a'')" registry0]
  show ?thesis by blast
qed

section \<open>The current version\<close>

text \<open>
  C4, as the code has it. When the query succeeds on a table without rows,
  \<open>currentVersion\<close> returns the empty string and a nil error; on a table with rows, the
  greatest version in it and a nil error; when the query fails (the driver fails it, or
  the table is missing), the empty string and the error.
\<close>

theorem currentVersion_result:
  "(fs QueryLast = None \<and> versions (database w) = Some rs \<longrightarrow>
      fst (currentVersion fs w) =
        (if rs = [] then ('''', None) else (Max (set (map version rs)), None)))
   \<and> (fs QueryLast = None \<and> versions (database w) = None \<longrightarrow>
        fst (currentVersion fs w) = ('''', Some no_table))
   \<and> (fs QueryLast = Some msg \<longrightarrow> fst (currentVersion fs w) = ('''', Some (Failure msg)))"
  using take1_rev_sort [of "map version rs"]
  by (auto simp: currentVersion_def db_QueryRow_Last_def queryVersionsLast_def Let_def logged_def
      no_table_def split: list.splits)

theorem currentVersion_result_witness:
  "no_faults QueryLast = None
   \<and> versions (database world_AB)
       = Some [\<lparr>version = ''00010101T000000Z'', vname = ''nil''\<rparr>,
               \<lparr>version = ''20200101T000000Z'', vname = ''a''\<rparr>,
               \<lparr>version = ''20200201T000000Z'', vname = ''b''\<rparr>]
   \<and> fst (currentVersion no_faults world_AB) = (''20200201T000000Z'', None)
   \<and> versions (database fresh) = None
   \<and> fst (currentVersion no_faults fresh) = ('''', Some no_table)
   \<and> failing_on QueryLast ''timeout'' QueryLast = Some ''timeout''
   \<and> fst (currentVersion (failing_on QueryLast ''timeout'') world_AB) = ('''', Some (Failure ''timeout''))"
proof -
  have h1: "no_faults QueryLast = None" by (simp add: no_faults_def)
  have h2: "versions (database world_AB)
       = Some [\<lparr>version = ''00010101T000000Z'', vname = ''nil''\<rparr>,
               \<lparr>version = ''20200101T000000Z'', vname = ''a''\<rparr>,
               \<lparr>version = ''20200201T000000Z'', vname = ''b''\<rparr>]"
    by (simp add: world_AB_def with_rows_def)
  have h3: "versions (database fresh) = None" by (simp add: fresh_def)
  have h4: "failing_on QueryLast ''timeout'' QueryLast = Some ''timeout''"
    by (simp add: failing_on_def)
  have a: "fst (currentVersion no_faults world_AB) = (''20200201T000000Z'', None)"
    using h1 h2 currentVersion_result [of no_faults world_AB _ "''''"] by simp
  have b: "fst (currentVersion no_faults fresh) = ('''', Some no_table)"
    using h1 h3 currentVersion_result [of no_faults fresh "[]" "''''"] by simp
  have c: "fst (currentVersion (failing_on QueryLast ''timeout'') world_AB) = ('''', Some (Failure ''timeout''))"
    using h4 currentVersion_result [of "failing_on QueryLast ''timeout''" world_AB "[]" "''timeout''"]
    by simp
  from h1 h2 h3 h4 a b c show ?thesis by blast
qed

text \<open>
  C4 as stated does not hold: what \<open>currentVersion\<close> returns on a table without rows is
  a string, the empty one, and it returns the same on a table whose greatest version is
  the empty string.
\<close>

theorem currentVersion_none_counterexample:
  "fst (currentVersion no_faults (with_rows [])) = ('''', None)
   \<and> fst (currentVersion no_faults (with_rows [\<lparr>version = '''', vname = ''blank''\<rparr>])) = ('''', None)"
  by code_simp

section \<open>Failures\<close>





end
